theory Spec2Isabelle
  imports Main "HOL-Library.AList"
begin

section \<open>Values decoded from a sinfo report\<close>

text \<open>
  \<^verbatim>\<open>json.load\<close> turns the report into Python values: \<^verbatim>\<open>None\<close>, booleans, integers,
  floats, strings, lists and dictionaries with string keys. The parser never looks inside
  a number, so the representation of floats is left open as the type parameter \<open>'fl\<close>.
  A dictionary is an association list in insertion order; a Python dictionary holds each
  key once, which is the predicate \<open>dict_keys_distinct\<close> on the list.
\<close>

datatype 'fl json =
    JNull
  | JBool bool
  | JInt int
  | JFloat 'fl
  | JStr string
  | JArr "'fl json list"
  | JObj "(string \<times> 'fl json) list"

type_synonym 'fl dict = "(string \<times> 'fl json) list"

definition dict_keys :: "'fl dict \<Rightarrow> string set" where
  "dict_keys d = fst ` set d"

definition dict_keys_distinct :: "'fl dict \<Rightarrow> bool" where
  "dict_keys_distinct d = distinct (map fst d)"

text \<open>The exceptions that can leave \<^verbatim>\<open>node_parser\<close>.\<close>

datatype error =
    JSONDecodeError
  | KeyError string
  | TypeError
  | AttributeError
  | ValueError string

section \<open>The translators of \<^verbatim>\<open>slurm_state.helpers.parser_helper\<close>\<close>

text \<open>
  Modelled from the spec: the module \<^verbatim>\<open>slurm_state/helpers/parser_helper.py\<close>, from which
  \<^verbatim>\<open>sinfo_parser.py\<close> imports \<^verbatim>\<open>copy\<close>, \<^verbatim>\<open>ignore\<close> and \<^verbatim>\<open>rename\<close>, is not among the
  sources. The spec describes a translator as a function of
  \<open>(field_name, raw_value, output_record)\<close> that mutates the output record or does nothing:
  \<^item> \<open>copy\<close>: store the value under its original key unchanged;
  \<^item> \<open>rename(new_key)\<close>: store the value under \<open>new_key\<close> unchanged;
  \<^item> \<open>ignore\<close>: discard the value.
  A translator is a value of the datatype below and \<open>translate\<close> is its call
  \<^verbatim>\<open>translator(k, v, res_node)\<close>, returning the updated output record. Storing is
  \<^verbatim>\<open>res[key] = v\<close>: \<open>AList.update\<close> replaces the value of a key already present and
  appends a new key at the end, as a Python dictionary does.
\<close>

datatype translator = copy | ignore | rename string

fun translate :: "translator \<Rightarrow> string \<Rightarrow> 'fl json \<Rightarrow> 'fl dict \<Rightarrow> 'fl dict" where
  "translate copy k v res = AList.update k v res"
| "translate ignore k v res = res"
| "translate (rename new_key) k v res = AList.update new_key v res"

section \<open>The node field registry\<close>

definition NODE_FIELD_MAP :: "(string \<times> translator) list" where
  "NODE_FIELD_MAP = [
    (''architecture'', rename ''arch''),
    (''burstbuffer_network_address'', ignore),
    (''boards'', ignore),
    (''boot_time'', ignore),
    (''comment'', copy),
    (''cores'', copy),
    (''cpu_binding'', ignore),
    (''cpu_load'', ignore),
    (''cpus'', copy),
    (''extra'', ignore),
    (''free_memory'', ignore),
    (''last_busy'', copy),
    (''features'', copy),
    (''active_features'', ignore),
    (''gres'', copy),
    (''gres_drained'', ignore),
    (''gres_used'', ignore),
    (''mcs_label'', ignore),
    (''name'', copy),
    (''next_state_after_reboot'', ignore),
    (''address'', rename ''addr''),
    (''hostname'', ignore),
    (''state'', copy),
    (''state_flags'', ignore),
    (''next_state_after_reboot_flags'', ignore),
    (''operating_system'', ignore),
    (''owner'', ignore),
    (''partitions'', ignore),
    (''port'', ignore),
    (''real_memory'', rename ''memory''),
    (''reason'', copy),
    (''reason_changed_at'', copy),
    (''reason_set_by_user'', ignore),
    (''slurmd_start_time'', ignore),
    (''sockets'', ignore),
    (''threads'', ignore),
    (''temporary_disk'', ignore),
    (''weight'', ignore),
    (''tres'', copy),
    (''slurmd_version'', ignore),
    (''alloc_memory'', ignore),
    (''alloc_cpus'', ignore),
    (''idle_cpus'', ignore),
    (''tres_used'', copy),
    (''tres_weighted'', ignore)
  ]"

text \<open>\<^verbatim>\<open>NODE_FIELD_MAP.get(k, None)\<close>\<close>

definition node_field_get :: "string \<Rightarrow> translator option" where
  "node_field_get k = map_of NODE_FIELD_MAP k"

section \<open>The node parser\<close>

text \<open>
  The inner loop of \<^verbatim>\<open>node_parser\<close>, \<^verbatim>\<open>for k, v in src_node.items()\<close>, with the output
  record \<^verbatim>\<open>res_node\<close> as an accumulator. An unknown field raises \<^verbatim>\<open>ValueError\<close> with the
  message of the source; the fields after it are not visited and \<^verbatim>\<open>res_node\<close> is lost.
\<close>

fun translate_items :: "'fl dict \<Rightarrow> 'fl dict \<Rightarrow> error + 'fl dict" where
  "translate_items [] res_node = Inr res_node"
| "translate_items ((k, v) # items) res_node =
     (case node_field_get k of
        None \<Rightarrow> Inl (ValueError (''Unknown field in sinfo node output: '' @ k))
      | Some translator \<Rightarrow> translate_items items (translate translator k v res_node))"

text \<open>\<^verbatim>\<open>src_node.items()\<close>: only a dictionary has the method.\<close>

fun items_of :: "'fl json \<Rightarrow> error + 'fl dict" where
  "items_of (JObj d) = Inr d"
| "items_of _ = Inl AttributeError"

text \<open>The body of the outer loop for one \<^verbatim>\<open>src_node\<close>, up to the \<^verbatim>\<open>yield\<close>.\<close>

definition parse_node :: "'fl json \<Rightarrow> error + 'fl dict" where
  "parse_node src_node =
     (case items_of src_node of
        Inl e \<Rightarrow> Inl e
      | Inr items \<Rightarrow> translate_items items [])"

text \<open>\<^verbatim>\<open>sinfo_data["nodes"]\<close>: a dictionary is looked up, anything else cannot be
  subscripted with a string.\<close>

fun subscript_nodes :: "'fl json \<Rightarrow> error + 'fl json" where
  "subscript_nodes (JObj d) =
     (case map_of d ''nodes'' of
        None \<Rightarrow> Inl (KeyError ''nodes'')
      | Some src_nodes \<Rightarrow> Inr src_nodes)"
| "subscript_nodes _ = Inl TypeError"

text \<open>
  \<^verbatim>\<open>for src_node in src_nodes\<close>: the elements the loop visits. A list gives its elements,
  a dictionary its keys, a string its characters as one-character strings; the other
  values are not iterable.
\<close>

fun iterate :: "'fl json \<Rightarrow> error + 'fl json list" where
  "iterate (JArr xs) = Inr xs"
| "iterate (JObj d) = Inr (map (\<lambda>(k, v). JStr k) d)"
| "iterate (JStr s) = Inr (map (\<lambda>c. JStr [c]) s)"
| "iterate _ = Inl TypeError"

text \<open>
  \<^verbatim>\<open>node_parser\<close> is a generator. Calling it runs nothing; each \<^verbatim>\<open>next\<close> runs it up to
  the following \<^verbatim>\<open>yield\<close>, to the end of the loop, or to an exception, after which the
  generator is closed. The state is what the suspended frame holds: the argument before
  the first \<^verbatim>\<open>next\<close>, the elements still to visit while inside the loop.
  \<^verbatim>\<open>json.load\<close> belongs to the standard library and is a parameter here.
\<close>

datatype ('f, 'fl) generator =
    Created 'f
  | Suspended "'fl json list"
  | Closed

datatype 'fl outcome =
    Yield "'fl dict"
  | StopIteration
  | Raise error

fun loop_next :: "'fl json list \<Rightarrow> 'fl outcome \<times> ('f, 'fl) generator" where
  "loop_next [] = (StopIteration, Closed)"
| "loop_next (src_node # rest) =
     (case parse_node src_node of
        Inl e \<Rightarrow> (Raise e, Closed)
      | Inr res_node \<Rightarrow> (Yield res_node, Suspended rest))"

fun node_parser_next ::
  "('f \<Rightarrow> error + 'fl json) \<Rightarrow> ('f, 'fl) generator \<Rightarrow> 'fl outcome \<times> ('f, 'fl) generator" where
  "node_parser_next json_load (Created f) =
     (case json_load f of
        Inl e \<Rightarrow> (Raise e, Closed)
      | Inr sinfo_data \<Rightarrow>
          (case subscript_nodes sinfo_data of
             Inl e \<Rightarrow> (Raise e, Closed)
           | Inr src_nodes \<Rightarrow>
               (case iterate src_nodes of
                  Inl e \<Rightarrow> (Raise e, Closed)
                | Inr elems \<Rightarrow> loop_next elems)))"
| "node_parser_next json_load (Suspended elems) = loop_next elems"
| "node_parser_next json_load Closed = (StopIteration, Closed)"

definition node_parser :: "'f \<Rightarrow> ('f, 'fl) generator" where
  "node_parser f = Created f"

text \<open>The outcomes of the first \<open>n\<close> calls of \<^verbatim>\<open>next\<close> on a generator.\<close>

fun take_next ::
  "('f \<Rightarrow> error + 'fl json) \<Rightarrow> nat \<Rightarrow> ('f, 'fl) generator \<Rightarrow> 'fl outcome list" where
  "take_next json_load 0 g = []"
| "take_next json_load (Suc n) g =
     (case node_parser_next json_load g of (r, g') \<Rightarrow> r # take_next json_load n g')"

section \<open>Notions used to state the properties\<close>

text \<open>
  The key under which a translator stores the value of field \<open>k\<close>, if it stores it at
  all, and the same for the translator that the registry gives to \<open>k\<close>.
\<close>

fun target :: "translator \<Rightarrow> string \<Rightarrow> string option" where
  "target copy k = Some k"
| "target ignore k = None"
| "target (rename new_key) k = Some new_key"

definition target_of :: "string \<Rightarrow> string option" where
  "target_of k = (case node_field_get k of None \<Rightarrow> None | Some t \<Rightarrow> target t k)"


text \<open>
  The keys produced by the registered translators for the fields of a raw record: what
  each translator stores when it is run alone on an empty output record.
\<close>

definition produced_keys :: "'fl dict \<Rightarrow> string set" where
  "produced_keys items =
     (\<Union>(k, v) \<in> set items.
        case node_field_get k of
          None \<Rightarrow> {}
        | Some translator \<Rightarrow> dict_keys (translate translator k v []))"


text \<open>
  The canonical record of a raw record as the spec describes it, as a mapping: under a
  key \<open>x\<close> is the value of the field that the registry copies and that is named \<open>x\<close>,
  or of the field that the registry renames to \<open>x\<close>; an ignored field gives nothing.
\<close>

definition spec_canonical_record :: "'fl dict \<Rightarrow> string \<Rightarrow> 'fl json option" where
  "spec_canonical_record src_node x =
     (case find (\<lambda>(k, v). node_field_get k = Some copy \<and> k = x \<or>
                          node_field_get k = Some (rename x)) src_node of
        None \<Rightarrow> None
      | Some (k, v) \<Rightarrow> Some v)"


section \<open>The registry\<close>

lemma node_field_get_cases:
  "node_field_get k = Some t \<Longrightarrow> (k, t) \<in> set NODE_FIELD_MAP"
  unfolding node_field_get_def by (rule map_of_SomeD)

lemma rename_entries:
  assumes "node_field_get k = Some (rename n)"
  shows "(k, n) \<in> {(''architecture'', ''arch''), (''address'', ''addr''), (''real_memory'', ''memory'')}"
  using node_field_get_cases[OF assms] unfolding NODE_FIELD_MAP_def by auto

lemma targets_unregistered:
  "node_field_get ''arch'' = None" "node_field_get ''addr'' = None" "node_field_get ''memory'' = None"
  unfolding node_field_get_def NODE_FIELD_MAP_def by simp_all

lemma rename_target_unregistered:
  "node_field_get k = Some (rename n) \<Longrightarrow> node_field_get n = None"
  using rename_entries[of k n] targets_unregistered by auto

lemma rename_source_unique:
  "node_field_get k1 = Some (rename n) \<Longrightarrow> node_field_get k2 = Some (rename n) \<Longrightarrow> k1 = k2"
  using rename_entries[of k1 n] rename_entries[of k2 n] by auto

lemma target_of_inj:
  assumes "target_of k1 = Some x" "target_of k2 = Some x"
  shows "k1 = k2"
proof -
  obtain t1 where t1: "node_field_get k1 = Some t1" "target t1 k1 = Some x"
    using assms(1) by (auto simp: target_of_def split: option.splits)
  obtain t2 where t2: "node_field_get k2 = Some t2" "target t2 k2 = Some x"
    using assms(2) by (auto simp: target_of_def split: option.splits)
  show ?thesis
  proof (cases t1)
    case copy
    then have x: "x = k1" using t1 by simp
    show ?thesis
    proof (cases t2)
      case copy
      then show ?thesis using t2 x by simp
    next
      case ignore
      then show ?thesis using t2 by simp
    next
      case (rename n)
      then have "node_field_get x = None"
        using t2 rename_target_unregistered[of k2 n] by simp
      then show ?thesis using t1 x by simp
    qed
  next
    case ignore
    then show ?thesis using t1 by simp
  next
    case (rename n)
    then have x: "x = n" using t1 by simp
    show ?thesis
    proof (cases t2)
      case copy
      then have "k2 = x" using t2 by simp
      moreover have "node_field_get x = None"
        using t1 rename x rename_target_unregistered[of k1 n] by simp
      ultimately show ?thesis using t2 by simp
    next
      case ignore
      then show ?thesis using t2 by simp
    next
      case r2: (rename m)
      then have "m = n" using t2 x by simp
      then show ?thesis
        using rename_source_unique[of k1 n k2] t1 t2 rename r2 by simp
    qed
  qed
qed

lemma map_of_translate:
  "map_of (translate t k v res) x = (if target t k = Some x then Some v else map_of res x)"
  by (cases t) (auto simp: update_conv)

lemma dict_keys_translate:
  "dict_keys (translate t k v res) = dict_keys res \<union> set_option (target t k)"
  by (cases t) (auto simp: dict_keys_def dom_update)

lemma translate_items_keys:
  "translate_items items acc = Inr res \<Longrightarrow>
   dict_keys res = dict_keys acc \<union> {x. \<exists>k \<in> dict_keys items. target_of k = Some x}"
proof (induction items arbitrary: acc)
  case Nil
  then show ?case by (simp add: dict_keys_def)
next
  case (Cons p items)
  obtain k v where p: "p = (k, v)" by (cases p)
  from Cons.prems p obtain t where t: "node_field_get k = Some t"
    and rest: "translate_items items (translate t k v acc) = Inr res"
    by (auto split: option.splits)
  have "dict_keys res = dict_keys (translate t k v acc) \<union> {x. \<exists>k \<in> dict_keys items. target_of k = Some x}"
    using Cons.IH[OF rest] .
  moreover have "set_option (target t k) = {x. target_of k = Some x}"
    using t by (auto simp: target_of_def)
  moreover have "dict_keys (p # items) = insert k (dict_keys items)"
    using p by (simp add: dict_keys_def)
  ultimately show ?case
    unfolding dict_keys_translate by auto
qed

lemma translate_items_map_of:
  "translate_items items acc = Inr res \<Longrightarrow> distinct (map fst items) \<Longrightarrow>
   map_of res x =
     (case find (\<lambda>(k, v). target_of k = Some x) items of
        None \<Rightarrow> map_of acc x
      | Some (k, v) \<Rightarrow> Some v)"
proof (induction items arbitrary: acc)
  case Nil
  then show ?case by simp
next
  case (Cons p items)
  obtain k v where p: "p = (k, v)" by (cases p)
  from Cons.prems p obtain t where t: "node_field_get k = Some t"
    and rest: "translate_items items (translate t k v acc) = Inr res"
    by (auto split: option.splits)
  have d: "distinct (map fst items)" and knotin: "k \<notin> fst ` set items"
    using Cons.prems(2) p by auto
  note IH = Cons.IH[OF rest d]
  show ?case
  proof (cases "target_of k = Some x")
    case True
    have "find (\<lambda>(k, v). target_of k = Some x) items = None"
    proof (rule ccontr)
      assume "find (\<lambda>(k, v). target_of k = Some x) items \<noteq> None"
      then obtain k' v' where "(k', v') \<in> set items" "target_of k' = Some x"
        by (auto simp: find_None_iff)
      then show False using target_of_inj[OF True, of k'] knotin by force
    qed
    then show ?thesis using IH True t p
      by (simp add: map_of_translate target_of_def)
  next
    case False
    then have "target t k \<noteq> Some x" using t by (simp add: target_of_def)
    then have "map_of (translate t k v acc) x = map_of acc x"
      by (simp add: map_of_translate)
    then show ?thesis using IH False p by (simp split: option.splits)
  qed
qed

section \<open>Normalising one record\<close>

lemma translate_items_known:
  "\<forall>k \<in> dict_keys items. node_field_get k \<noteq> None \<Longrightarrow> \<exists>res. translate_items items acc = Inr res"
proof (induction items arbitrary: acc)
  case Nil
  then show ?case by simp
next
  case (Cons p items)
  obtain k v where p: "p = (k, v)" by (cases p)
  from Cons.prems p obtain t where t: "node_field_get k = Some t"
    by (auto simp: dict_keys_def)
  have "\<forall>k \<in> dict_keys items. node_field_get k \<noteq> None"
    using Cons.prems by (simp add: dict_keys_def)
  from Cons.IH[OF this, of "translate t k v acc"] show ?case
    using t p by simp
qed

lemma produced_keys_target:
  "produced_keys items = {x. \<exists>k \<in> dict_keys items. target_of k = Some x}"
proof -
  have "dict_keys (translate t k v []) = set_option (target t k)" for t k and v :: "'a json"
    using dict_keys_translate[of t k v "[]"] by (simp add: dict_keys_def)
  then have "(case node_field_get k of None \<Rightarrow> {}
              | Some translator \<Rightarrow> dict_keys (translate translator k v [])) =
             {x. target_of k = Some x}" for k and v :: "'a json"
    by (auto simp: target_of_def split: option.splits)
  then have "produced_keys items = (\<Union>(k, v) \<in> set items. {x. target_of k = Some x})"
    unfolding produced_keys_def by simp
  also have "\<dots> = {x. \<exists>k \<in> dict_keys items. target_of k = Some x}"
    unfolding dict_keys_def by force
  finally show ?thesis .
qed

lemma translate_items_unknown:
  "k0 \<in> dict_keys items \<Longrightarrow> node_field_get k0 = None \<Longrightarrow>
   \<exists>k. find (\<lambda>k. node_field_get k = None) (map fst items) = Some k \<and>
      translate_items items acc = Inl (ValueError (''Unknown field in sinfo node output: '' @ k))"
proof (induction items arbitrary: acc)
  case Nil
  then show ?case by (simp add: dict_keys_def)
next
  case (Cons p items)
  obtain k v where p: "p = (k, v)" by (cases p)
  show ?case
  proof (cases "node_field_get k")
    case None
    then show ?thesis using p by simp
  next
    case (Some t)
    then have "k0 \<noteq> k" using Cons.prems(2) by auto
    then have "k0 \<in> dict_keys items" using Cons.prems(1) p by (auto simp: dict_keys_def)
    from Cons.IH[OF this Cons.prems(2), of "translate t k v acc"]
    show ?thesis using Some p by simp
  qed
qed

text \<open>
  C1. A raw node record with at least one key that the registry does not know is never
  normalised: the inner loop raises at the first such key, in the order of the record,
  with the message \<^verbatim>\<open>Unknown field in sinfo node output: <key>\<close>, which names the field
  and the kind of report. The result is the exception alone, so no record, partial or
  not, is returned, and the generator yields nothing for this record and is closed.
\<close>

theorem unknown_field_raises:
  assumes "k0 \<in> dict_keys src_node" and "node_field_get k0 = None"
  shows "\<exists>k. find (\<lambda>k. node_field_get k = None) (map fst src_node) = Some k \<and>
           parse_node (JObj src_node) =
             Inl (ValueError (''Unknown field in sinfo node output: '' @ k)) \<and>
           loop_next (JObj src_node # rest) =
             (Raise (ValueError (''Unknown field in sinfo node output: '' @ k)), Closed)"
proof -
  from translate_items_unknown[OF assms, of "[]"] obtain k where
    "find (\<lambda>k. node_field_get k = None) (map fst src_node) = Some k"
    "translate_items src_node [] = Inl (ValueError (''Unknown field in sinfo node output: '' @ k))"
    by blast
  then show ?thesis by (simp add: parse_node_def)
qed

theorem unknown_field_raises_witness:
  "''new_future_field'' \<in>
     dict_keys [(''name'', JStr ''node1''), (''new_future_field'', JInt 1 :: unit json)] \<and>
   node_field_get ''new_future_field'' = None \<and>
   parse_node (JObj [(''name'', JStr ''node1''), (''new_future_field'', JInt 1 :: unit json)]) =
     Inl (ValueError ''Unknown field in sinfo node output: new_future_field'') \<and>
   loop_next [JObj [(''name'', JStr ''node1''), (''new_future_field'', JInt 1 :: unit json)]] =
     (Raise (ValueError ''Unknown field in sinfo node output: new_future_field''),
      Closed :: (unit, unit) generator)"
proof -
  have h1: "''new_future_field'' \<in>
      dict_keys [(''name'', JStr ''node1''), (''new_future_field'', JInt 1 :: unit json)]"
    by (simp add: dict_keys_def)
  have h2: "node_field_get ''new_future_field'' = None"
    by (simp add: node_field_get_def NODE_FIELD_MAP_def)
  have h3: "node_field_get ''name'' = Some copy"
    by (simp add: node_field_get_def NODE_FIELD_MAP_def)
  show ?thesis
    using unknown_field_raises[OF h1 h2, of "[]", where ?'b = unit] h1 h2 h3
    by simp
qed

text \<open>
  C2. A raw node record whose keys are all in the registry is normalised, and the keys of
  the canonical record are exactly the keys that the registered translators produce for
  its fields: none is missing and none is added.
\<close>

theorem known_fields_keys:
  assumes "\<forall>k \<in> dict_keys src_node. node_field_get k \<noteq> None"
  shows "\<exists>res_node. parse_node (JObj src_node) = Inr res_node \<and>
           dict_keys res_node = produced_keys src_node"
proof -
  from translate_items_known[OF assms, of "[]"] obtain res where
    res: "translate_items src_node [] = Inr res" by blast
  from translate_items_keys[OF res] have "dict_keys res = produced_keys src_node"
    by (simp add: produced_keys_target dict_keys_def)
  with res show ?thesis by (simp add: parse_node_def)
qed

theorem known_fields_keys_witness:
  "node_field_get ''name'' \<noteq> None \<and> node_field_get ''real_memory'' \<noteq> None \<and>
   node_field_get ''boards'' \<noteq> None \<and>
   (\<exists>res_node.
      parse_node (JObj [(''name'', JStr ''node1''), (''real_memory'', JInt 1800),
        (''boards'', JInt 1 :: unit json)]) = Inr res_node \<and>
      dict_keys res_node = {''name'', ''memory''})"
proof -
  have h: "\<forall>k \<in> dict_keys [(''name'', JStr ''node1''), (''real_memory'', JInt 1800),
        (''boards'', JInt 1 :: unit json)]. node_field_get k \<noteq> None"
    by (simp add: dict_keys_def node_field_get_def NODE_FIELD_MAP_def)
  have p: "produced_keys [(''name'', JStr ''node1''), (''real_memory'', JInt 1800),
        (''boards'', JInt 1 :: unit json)] = {''name'', ''memory''}"
    by (simp add: produced_keys_def dict_keys_def node_field_get_def NODE_FIELD_MAP_def
        insert_commute)
  show ?thesis
    using known_fields_keys[OF h] h p by (simp add: dict_keys_def)
qed

section \<open>Driving the generator\<close>

lemma translate_items_errors:
  "translate_items items acc = Inl e \<Longrightarrow> \<exists>msg. e = ValueError msg"
proof (induction items arbitrary: acc)
  case Nil
  then show ?case by simp
next
  case (Cons p items)
  obtain k v where p: "p = (k, v)" by (cases p)
  show ?case
  proof (cases "node_field_get k")
    case None
    then show ?thesis using Cons.prems p by auto
  next
    case (Some t)
    then have "translate_items items (translate t k v acc) = Inl e"
      using Cons.prems p by simp
    then show ?thesis by (rule Cons.IH)
  qed
qed

lemma parse_node_errors:
  "parse_node src_node = Inl e \<Longrightarrow> e = AttributeError \<or> (\<exists>msg. e = ValueError msg)"
  by (cases src_node) (auto simp: parse_node_def dest: translate_items_errors)

lemma loop_next_raise:
  "loop_next elems = (Raise e, g) \<Longrightarrow>
   g = Closed \<and> (e = AttributeError \<or> (\<exists>msg. e = ValueError msg))"
  by (cases elems) (auto split: sum.splits dest: parse_node_errors)

lemma take_next_Closed:
  "take_next json_load n Closed = replicate n StopIteration"
  by (induction n) simp_all

lemma take_next_Created:
  assumes "json_load f = Inr sinfo_data" and "subscript_nodes sinfo_data = Inr src_nodes"
    and "iterate src_nodes = Inr elems"
  shows "take_next json_load n (node_parser f) = take_next json_load n (Suspended elems)"
  using assms by (cases n) (simp_all add: node_parser_def)

lemma take_next_yields:
  "list_all2 (\<lambda>src_node res_node. parse_node src_node = Inr res_node) elems recs \<Longrightarrow>
   take_next json_load (length elems + m) (Suspended (elems @ rest)) =
     map Yield recs @ take_next json_load m (Suspended rest)"
  by (induction elems recs rule: list_all2_induct) simp_all

lemma parse_all_known:
  "\<forall>src_node \<in> set good. \<forall>k \<in> dict_keys src_node. node_field_get k \<noteq> None \<Longrightarrow>
   \<exists>recs. list_all2 (\<lambda>src_node res_node. parse_node (JObj src_node) = Inr res_node) good recs"
proof (induction good)
  case Nil
  then show ?case by simp
next
  case (Cons src_node good)
  then obtain recs where
    "list_all2 (\<lambda>src_node res_node. parse_node (JObj src_node) = Inr res_node) good recs"
    by auto
  moreover from Cons.prems translate_items_known[of src_node "[]"]
  obtain res where "parse_node (JObj src_node) = Inr res"
    by (auto simp: parse_node_def)
  ultimately have
    "list_all2 (\<lambda>src_node res_node. parse_node (JObj src_node) = Inr res_node)
       (src_node # good) (res # recs)"
    by simp
  then show ?case by blast
qed

lemma run_to_unknown_field:
  assumes "json_load f = Inr (JObj sinfo_data)"
    and "map_of sinfo_data ''nodes'' = Some (JArr src_nodes)"
    and "src_nodes = map JObj good @ JObj bad # rest"
    and "list_all2 (\<lambda>src_node res_node. parse_node (JObj src_node) = Inr res_node) good recs"
    and "parse_node (JObj bad) = Inl e"
  shows "take_next json_load (length good) (node_parser f) = map Yield recs"
    and "take_next json_load (Suc (length good) + m) (node_parser f) =
           map Yield recs @ Raise e # replicate m StopIteration"
proof -
  have ys: "list_all2 (\<lambda>src_node res_node. parse_node src_node = Inr res_node)
              (map JObj good) recs"
    using assms(4) by (simp add: list_all2_map1)
  have start: "take_next json_load n (node_parser f) =
                 take_next json_load n (Suspended (map JObj good @ JObj bad # rest))" for n
    using take_next_Created[of json_load f "JObj sinfo_data" "JArr src_nodes" src_nodes n]
      assms(1-3) by simp
  show "take_next json_load (length good) (node_parser f) = map Yield recs"
    using take_next_yields[OF ys, of json_load 0 "JObj bad # rest"] start[of "length good"]
    by simp
  have "take_next json_load (Suc m) (Suspended (JObj bad # rest)) =
          Raise e # replicate m StopIteration"
    using assms(5) by (simp add: take_next_Closed)
  then show "take_next json_load (Suc (length good) + m) (node_parser f) =
           map Yield recs @ Raise e # replicate m StopIteration"
    using take_next_yields[OF ys, of json_load "Suc m" "JObj bad # rest"]
      start[of "Suc (length good) + m"]
    by (simp add: add.commute)
qed

lemma target_of_iff:
  "target_of k = Some x \<longleftrightarrow>
   node_field_get k = Some copy \<and> k = x \<or> node_field_get k = Some (rename x)"
proof (cases "node_field_get k")
  case None
  then show ?thesis by (simp add: target_of_def)
next
  case (Some t)
  then show ?thesis by (cases t) (auto simp: target_of_def)
qed

lemma parse_node_canonical:
  assumes "parse_node (JObj src_node) = Inr res_node" and "dict_keys_distinct src_node"
  shows "map_of res_node = spec_canonical_record src_node"
proof
  fix x
  from assms(1) have r: "translate_items src_node [] = Inr res_node"
    by (simp add: parse_node_def)
  have d: "distinct (map fst src_node)" using assms(2) by (simp add: dict_keys_distinct_def)
  have "(\<lambda>(k, v). target_of k = Some x) =
        (\<lambda>(k, v::'a json). node_field_get k = Some copy \<and> k = x \<or>
                   node_field_get k = Some (rename x))"
    by (simp add: target_of_iff)
  with translate_items_map_of[OF r d, of x] show "map_of res_node x = spec_canonical_record src_node x"
    by (simp add: spec_canonical_record_def split: option.splits)
qed

lemma parse_all_canonical:
  assumes "\<forall>src_node \<in> set good. \<forall>k \<in> dict_keys src_node. node_field_get k \<noteq> None"
  shows "\<exists>recs. list_all2 (\<lambda>src_node res_node.
            parse_node (JObj src_node) = Inr res_node \<and>
            (dict_keys_distinct src_node \<longrightarrow> map_of res_node = spec_canonical_record src_node))
          good recs"
proof -
  from parse_all_known[OF assms] obtain recs where
    "list_all2 (\<lambda>src_node res_node. parse_node (JObj src_node) = Inr res_node) good recs"
    by blast
  then have "list_all2 (\<lambda>src_node res_node.
            parse_node (JObj src_node) = Inr res_node \<and>
            (dict_keys_distinct src_node \<longrightarrow> map_of res_node = spec_canonical_record src_node))
          good recs"
    by (rule list_all2_mono) (simp add: parse_node_canonical)
  then show ?thesis by blast
qed

text \<open>
  C4. In a report whose records are dictionaries, let record \<open>k\<close> be the first with a field
  that the registry does not know: \<open>good\<close> are the \<open>k - 1\<close> records before it, \<open>bad\<close> is
  record \<open>k\<close>, \<open>rest\<close> whatever follows. The first \<open>k - 1\<close> calls of \<^verbatim>\<open>next\<close> return the
  normalised records of \<open>good\<close>, in order, and only call \<open>k\<close> raises the error of \<open>bad\<close>.
  Each record returned is the fully normalised one: as a mapping it is the canonical
  record that the spec describes for its raw record (whose keys are unique, as in a Python
  dictionary): copied fields under their own key, renamed fields under the new key,
  ignored fields absent.
\<close>

theorem lazy_prefix_before_failure:
  assumes "json_load f = Inr (JObj sinfo_data)"
    and "map_of sinfo_data ''nodes'' = Some (JArr src_nodes)"
    and "src_nodes = map JObj good @ JObj bad # rest"
    and "\<forall>src_node \<in> set good. \<forall>k \<in> dict_keys src_node. node_field_get k \<noteq> None"
    and "k0 \<in> dict_keys bad" and "node_field_get k0 = None"
  shows "\<exists>recs k.
           list_all2 (\<lambda>src_node res_node.
              parse_node (JObj src_node) = Inr res_node \<and>
              (dict_keys_distinct src_node \<longrightarrow>
                 map_of res_node = spec_canonical_record src_node)) good recs \<and>
           find (\<lambda>k. node_field_get k = None) (map fst bad) = Some k \<and>
           take_next json_load (length good) (node_parser f) = map Yield recs \<and>
           take_next json_load (Suc (length good)) (node_parser f) =
             map Yield recs @ [Raise (ValueError (''Unknown field in sinfo node output: '' @ k))]"
proof -
  from parse_all_canonical[OF assms(4)] obtain recs where recs:
    "list_all2 (\<lambda>src_node res_node.
        parse_node (JObj src_node) = Inr res_node \<and>
        (dict_keys_distinct src_node \<longrightarrow> map_of res_node = spec_canonical_record src_node))
      good recs"
    by blast
  then have recs': "list_all2 (\<lambda>src_node res_node. parse_node (JObj src_node) = Inr res_node)
      good recs"
    by (rule list_all2_mono) simp
  from translate_items_unknown[OF assms(5,6), of "[]"] obtain k where
    k: "find (\<lambda>k. node_field_get k = None) (map fst bad) = Some k"
    and bad: "parse_node (JObj bad) =
      Inl (ValueError (''Unknown field in sinfo node output: '' @ k))"
    by (auto simp: parse_node_def)
  note run = run_to_unknown_field[where json_load = json_load and f = f, OF assms(1-3) recs' bad]
  from run(1) run(2)[of 0] recs k show ?thesis by auto
qed

theorem lazy_prefix_before_failure_witness:
  "map_of [(''nodes'', JArr [JObj [(''name'', JStr ''node1''), (''real_memory'', JInt 1800),
          (''boards'', JInt 1)],
        JObj [(''new_future_field'', JInt 1)], JObj [(''name'', JStr ''node3'')]] :: unit json)]
      ''nodes'' =
     Some (JArr (map JObj [ [(''name'', JStr ''node1''), (''real_memory'', JInt 1800),
          (''boards'', JInt 1)] ] @
        JObj [(''new_future_field'', JInt 1)] # [JObj [(''name'', JStr ''node3'')]])) \<and>
   node_field_get ''name'' \<noteq> None \<and> node_field_get ''real_memory'' \<noteq> None \<and>
   node_field_get ''boards'' \<noteq> None \<and>
   node_field_get ''new_future_field'' = None \<and>
   take_next Inr 1 (node_parser (JObj [(''nodes'', JArr [JObj [(''name'', JStr ''node1''),
          (''real_memory'', JInt 1800), (''boards'', JInt 1)],
        JObj [(''new_future_field'', JInt 1)], JObj [(''name'', JStr ''node3'')]] :: unit json)])) =
     [Yield [(''name'', JStr ''node1''), (''memory'', JInt 1800)]] \<and>
   take_next Inr 2 (node_parser (JObj [(''nodes'', JArr [JObj [(''name'', JStr ''node1''),
          (''real_memory'', JInt 1800), (''boards'', JInt 1)],
        JObj [(''new_future_field'', JInt 1)], JObj [(''name'', JStr ''node3'')]] :: unit json)])) =
     [Yield [(''name'', JStr ''node1''), (''memory'', JInt 1800)],
      Raise (ValueError ''Unknown field in sinfo node output: new_future_field'')] \<and>
   spec_canonical_record [(''name'', JStr ''node1''), (''real_memory'', JInt 1800),
          (''boards'', JInt 1 :: unit json)] ''memory'' = Some (JInt 1800) \<and>
   spec_canonical_record [(''name'', JStr ''node1''), (''real_memory'', JInt 1800),
          (''boards'', JInt 1 :: unit json)] ''boards'' = None"
proof -
  let ?good = "[ [(''name'', JStr ''node1''), (''real_memory'', JInt 1800),
          (''boards'', JInt 1)] ] :: unit dict list"
  let ?bad = "[(''new_future_field'', JInt 1)] :: unit dict"
  let ?rest = "[JObj [(''name'', JStr ''node3'')]] :: unit json list"
  let ?src_nodes = "map JObj ?good @ JObj ?bad # ?rest"
  let ?d = "[(''nodes'', JArr ?src_nodes)]"
  have h1: "(Inr (JObj ?d) :: error + unit json) = Inr (JObj ?d)" by simp
  have h2: "map_of ?d ''nodes'' = Some (JArr ?src_nodes)" by simp
  have h3: "?src_nodes = map JObj ?good @ JObj ?bad # ?rest" by simp
  have n: "node_field_get ''name'' = Some copy"
    by (simp add: node_field_get_def NODE_FIELD_MAP_def)
  have m: "node_field_get ''real_memory'' = Some (rename ''memory'')"
    by (simp add: node_field_get_def NODE_FIELD_MAP_def)
  have b: "node_field_get ''boards'' = Some ignore"
    by (simp add: node_field_get_def NODE_FIELD_MAP_def)
  have h4: "\<forall>src_node \<in> set ?good. \<forall>k \<in> dict_keys src_node. node_field_get k \<noteq> None"
    using n m b by (simp add: dict_keys_def)
  have h5: "''new_future_field'' \<in> dict_keys ?bad" by (simp add: dict_keys_def)
  have h6: "node_field_get ''new_future_field'' = None"
    by (simp add: node_field_get_def NODE_FIELD_MAP_def)
  have s1: "spec_canonical_record [(''name'', JStr ''node1''), (''real_memory'', JInt 1800),
          (''boards'', JInt 1 :: unit json)] ''memory'' = Some (JInt 1800)"
    using n m b by (simp add: spec_canonical_record_def)
  have s2: "spec_canonical_record [(''name'', JStr ''node1''), (''real_memory'', JInt 1800),
          (''boards'', JInt 1 :: unit json)] ''boards'' = None"
    using n m b by (simp add: spec_canonical_record_def)
  from lazy_prefix_before_failure[where json_load = Inr and f = "JObj ?d", OF h1 h2 h3 h4 h5 h6]
  obtain recs k where
    r: "list_all2 (\<lambda>src_node res_node. parse_node (JObj src_node) = Inr res_node \<and>
          (dict_keys_distinct src_node \<longrightarrow> map_of res_node = spec_canonical_record src_node))
        ?good recs"
    and k: "find (\<lambda>k. node_field_get k = None) (map fst ?bad) = Some k"
    and t1: "take_next Inr (length ?good) (node_parser (JObj ?d)) = map Yield recs"
    and t2: "take_next Inr (Suc (length ?good)) (node_parser (JObj ?d)) =
      map Yield recs @ [Raise (ValueError (''Unknown field in sinfo node output: '' @ k))]"
    by blast
  from r n m b have recs: "recs = [ [(''name'', JStr ''node1''), (''memory'', JInt 1800)] ]"
    by (auto simp: list_all2_Cons1 parse_node_def)
  from k h6 have k': "k = ''new_future_field''" by simp
  from t1 t2 have
    "take_next Inr 1 (node_parser (JObj ?d)) =
       [Yield [(''name'', JStr ''node1''), (''memory'', JInt 1800)]]"
    "take_next Inr 2 (node_parser (JObj ?d)) =
       [Yield [(''name'', JStr ''node1''), (''memory'', JInt 1800)],
        Raise (ValueError ''Unknown field in sinfo node output: new_future_field'')]"
    unfolding recs k' by (simp_all add: numeral_2_eq_2)
  with h2 n m b h6 s1 s2 show ?thesis by simp
qed

text \<open>
  C5, as the code has it. In a report whose records are dictionaries and where \<open>bad\<close> is
  the first record with a field that the registry does not know, the consumer receives
  the normalised records of the records before \<open>bad\<close>, then the \<^verbatim>\<open>ValueError\<close> that
  names the first unknown field of \<open>bad\<close>, and after it nothing: every further \<^verbatim>\<open>next\<close>
  is \<^verbatim>\<open>StopIteration\<close>, so neither \<open>bad\<close> nor any record after it is yielded. No
  record at all is yielded when \<open>bad\<close> is the first record of the report.
\<close>

theorem unknown_field_aborts_report:
  assumes "json_load f = Inr (JObj sinfo_data)"
    and "map_of sinfo_data ''nodes'' = Some (JArr src_nodes)"
    and "src_nodes = map JObj good @ JObj bad # rest"
    and "\<forall>src_node \<in> set good. \<forall>k \<in> dict_keys src_node. node_field_get k \<noteq> None"
    and "k0 \<in> dict_keys bad" and "node_field_get k0 = None"
  shows "\<exists>recs k.
           list_all2 (\<lambda>src_node res_node. parse_node (JObj src_node) = Inr res_node) good recs \<and>
           find (\<lambda>k. node_field_get k = None) (map fst bad) = Some k \<and>
           (\<forall>m. take_next json_load (Suc (length good) + m) (node_parser f) =
              map Yield recs @
              Raise (ValueError (''Unknown field in sinfo node output: '' @ k)) #
              replicate m StopIteration)"
proof -
  from parse_all_known[OF assms(4)] obtain recs where recs:
    "list_all2 (\<lambda>src_node res_node. parse_node (JObj src_node) = Inr res_node) good recs"
    by blast
  from translate_items_unknown[OF assms(5,6), of "[]"] obtain k where
    k: "find (\<lambda>k. node_field_get k = None) (map fst bad) = Some k"
    and bad: "parse_node (JObj bad) =
      Inl (ValueError (''Unknown field in sinfo node output: '' @ k))"
    by (auto simp: parse_node_def)
  note run = run_to_unknown_field[where json_load = json_load and f = f, OF assms(1-3) recs bad]
  from run(2) recs k show ?thesis by blast
qed

theorem unknown_field_aborts_report_witness:
  "map_of [(''nodes'', JArr [JObj [(''name'', JStr ''node1''), (''new_future_field'', JInt 1)],
        JObj [(''name'', JStr ''node2'')]] :: unit json)] ''nodes'' =
     Some (JArr (map JObj [] @
        JObj [(''name'', JStr ''node1''), (''new_future_field'', JInt 1)] #
        [JObj [(''name'', JStr ''node2'')]])) \<and>
   node_field_get ''new_future_field'' = None \<and>
   take_next Inr 3 (node_parser (JObj [(''nodes'',
        JArr [JObj [(''name'', JStr ''node1''), (''new_future_field'', JInt 1)],
        JObj [(''name'', JStr ''node2'')]] :: unit json)])) =
     [Raise (ValueError ''Unknown field in sinfo node output: new_future_field''),
      StopIteration, StopIteration]"
proof -
  let ?good = "[] :: unit dict list"
  let ?bad = "[(''name'', JStr ''node1''), (''new_future_field'', JInt 1)] :: unit dict"
  let ?rest = "[JObj [(''name'', JStr ''node2'')]] :: unit json list"
  let ?src_nodes = "map JObj ?good @ JObj ?bad # ?rest"
  let ?d = "[(''nodes'', JArr ?src_nodes)]"
  have h1: "(Inr (JObj ?d) :: error + unit json) = Inr (JObj ?d)" by simp
  have h2: "map_of ?d ''nodes'' = Some (JArr ?src_nodes)" by simp
  have h3: "?src_nodes = map JObj ?good @ JObj ?bad # ?rest" by simp
  have n: "node_field_get ''name'' = Some copy"
    by (simp add: node_field_get_def NODE_FIELD_MAP_def)
  have h4: "\<forall>src_node \<in> set ?good. \<forall>k \<in> dict_keys src_node. node_field_get k \<noteq> None"
    by simp
  have h5: "''new_future_field'' \<in> dict_keys ?bad" by (simp add: dict_keys_def)
  have h6: "node_field_get ''new_future_field'' = None"
    by (simp add: node_field_get_def NODE_FIELD_MAP_def)
  from unknown_field_aborts_report[where json_load = Inr and f = "JObj ?d", OF h1 h2 h3 h4 h5 h6]
  obtain recs k where
    r: "list_all2 (\<lambda>src_node res_node. parse_node (JObj src_node) = Inr res_node) ?good recs"
    and k: "find (\<lambda>k. node_field_get k = None) (map fst ?bad) = Some k"
    and t: "\<forall>m. take_next Inr (Suc (length ?good) + m) (node_parser (JObj ?d)) =
      map Yield recs @ Raise (ValueError (''Unknown field in sinfo node output: '' @ k)) #
      replicate m StopIteration"
    by blast
  from r have recs: "recs = []" by simp
  from k n h6 have k': "k = ''new_future_field''" by simp
  from t have "take_next Inr (Suc (length ?good) + 2) (node_parser (JObj ?d)) =
      map Yield recs @ Raise (ValueError (''Unknown field in sinfo node output: '' @ k)) #
      replicate 2 StopIteration"
    by blast
  then show ?thesis
    unfolding recs k' using h6 by (simp add: numeral_3_eq_3 numeral_2_eq_2)
qed

text \<open>
  C5 as the spec words it fails: when a record before the offending one is well formed,
  that record is yielded to the consumer before the error is raised.
\<close>

theorem unknown_field_no_record_counterexample:
  "take_next Inr 2 (node_parser (JObj [(''nodes'',
        JArr [JObj [(''name'', JStr ''node1'')],
              JObj [(''new_future_field'', JInt 1)]] :: unit json)])) =
     [Yield [(''name'', JStr ''node1'')],
      Raise (ValueError ''Unknown field in sinfo node output: new_future_field'')]"
  by (simp add: numeral_2_eq_2 node_parser_def parse_node_def node_field_get_def
      NODE_FIELD_MAP_def)

lemma loop_next_keys:
  "d \<noteq> [] \<Longrightarrow>
   (loop_next (map (\<lambda>(k, v). JStr k) d) :: 'fl outcome \<times> ('f, 'fl) generator) =
     (Raise AttributeError, Closed)"
  by (cases d) (auto simp: parse_node_def)

lemma loop_next_chars:
  "s \<noteq> [] \<Longrightarrow>
   (loop_next (map (\<lambda>c. JStr [c]) s) :: 'fl outcome \<times> ('f, 'fl) generator) =
     (Raise AttributeError, Closed)"
  by (cases s) (auto simp: parse_node_def)

text \<open>
  C3, as the code has it. The parser makes no check of its own on the envelope and has no
  \<^verbatim>\<open>MalformedReportError\<close>; what fails is the Python operation applied to the decoded
  report, at the first \<^verbatim>\<open>next\<close> and before any record is yielded:
  \<^item> \<^verbatim>\<open>KeyError('nodes')\<close> exactly when the report is an object without the key
    \<^verbatim>\<open>nodes\<close>;
  \<^item> \<^verbatim>\<open>TypeError\<close> exactly when the report is not an object, or the value under
    \<^verbatim>\<open>nodes\<close> is null, a boolean or a number;
  \<^item> \<^verbatim>\<open>AttributeError\<close> when the value under \<^verbatim>\<open>nodes\<close> is an object or a string that is
    not empty: the loop visits its first key or character, which has no \<^verbatim>\<open>items\<close>.
  Each failure closes the generator. So every report whose \<^verbatim>\<open>nodes\<close> is missing or is
  not a list fails with one of these three exceptions, but for two: an empty object and
  an empty string under \<^verbatim>\<open>nodes\<close> are parsed as an empty report.
\<close>

theorem envelope_failures:
  fixes json_load :: "'f \<Rightarrow> error + 'fl json"
  assumes "json_load f = Inr sinfo_data"
  shows "(fst (node_parser_next json_load (node_parser f)) = Raise (KeyError ''nodes'') \<longleftrightarrow>
            (\<exists>d. sinfo_data = JObj d \<and> map_of d ''nodes'' = None)) \<and>
         (fst (node_parser_next json_load (node_parser f)) = Raise TypeError \<longleftrightarrow>
            (\<forall>d. sinfo_data \<noteq> JObj d) \<or>
            (\<exists>d src_nodes. sinfo_data = JObj d \<and> map_of d ''nodes'' = Some src_nodes \<and>
               (src_nodes = JNull \<or> (\<exists>b. src_nodes = JBool b) \<or>
                (\<exists>i. src_nodes = JInt i) \<or> (\<exists>x. src_nodes = JFloat x)))) \<and>
         ((\<exists>d src_nodes. sinfo_data = JObj d \<and> map_of d ''nodes'' = Some src_nodes \<and>
             ((\<exists>d'. src_nodes = JObj d' \<and> d' \<noteq> []) \<or> (\<exists>s. src_nodes = JStr s \<and> s \<noteq> []))) \<longrightarrow>
            node_parser_next json_load (node_parser f) = (Raise AttributeError, Closed)) \<and>
         ((\<exists>d. sinfo_data = JObj d \<and>
             (map_of d ''nodes'' = Some (JObj []) \<or> map_of d ''nodes'' = Some (JStr []))) \<longrightarrow>
            node_parser_next json_load (node_parser f) = (StopIteration, Closed)) \<and>
         ((\<exists>e. fst (node_parser_next json_load (node_parser f)) = Raise e) \<longrightarrow>
            snd (node_parser_next json_load (node_parser f)) = Closed) \<and>
         ((\<forall>d xs. sinfo_data = JObj d \<longrightarrow> map_of d ''nodes'' \<noteq> Some (JArr xs)) \<and>
          (\<forall>d. sinfo_data = JObj d \<longrightarrow>
             map_of d ''nodes'' \<noteq> Some (JObj []) \<and> map_of d ''nodes'' \<noteq> Some (JStr [])) \<longrightarrow>
            (\<exists>e. node_parser_next json_load (node_parser f) = (Raise e, Closed) \<and>
                 (e = KeyError ''nodes'' \<or> e = TypeError \<or> e = AttributeError)))"
proof -
  have loop: "fst (loop_next elems :: 'fl outcome \<times> ('f, 'fl) generator) \<noteq> Raise (KeyError ''nodes'') \<and>
              fst (loop_next elems :: 'fl outcome \<times> ('f, 'fl) generator) \<noteq> Raise TypeError \<and>
              ((\<exists>e. fst (loop_next elems :: 'fl outcome \<times> ('f, 'fl) generator) = Raise e) \<longrightarrow>
                 snd (loop_next elems :: 'fl outcome \<times> ('f, 'fl) generator) = Closed)"
    for elems :: "'fl json list"
    using loop_next_raise[of elems]
    by (cases "loop_next elems :: 'fl outcome \<times> ('f, 'fl) generator") auto
  show ?thesis
  proof (cases sinfo_data)
    case (JObj d)
    show ?thesis
    proof (cases "map_of d ''nodes''")
      case None
      then show ?thesis using assms JObj by (simp add: node_parser_def)
    next
      case (Some src_nodes)
      show ?thesis
      proof (cases src_nodes)
        case (JStr s)
        have nx: "node_parser_next json_load (node_parser f) =
            (loop_next (map (\<lambda>c. JStr [c]) s) :: 'fl outcome \<times> ('f, 'fl) generator)"
          using assms JObj Some JStr by (simp add: node_parser_def)
        show ?thesis
        proof (cases "s = []")
          case True
          then show ?thesis using nx JObj Some JStr by simp
        next
          case False
          from loop_next_chars[OF False] nx
          have "node_parser_next json_load (node_parser f) = (Raise AttributeError, Closed)"
            by simp
          then show ?thesis using JObj Some JStr False by simp
        qed
      next
        case (JObj d')
        have nx: "node_parser_next json_load (node_parser f) =
            (loop_next (map (\<lambda>(k, v). JStr k) d') :: 'fl outcome \<times> ('f, 'fl) generator)"
          using assms \<open>sinfo_data = JObj d\<close> Some JObj by (simp add: node_parser_def)
        show ?thesis
        proof (cases "d' = []")
          case True
          then show ?thesis using nx \<open>sinfo_data = JObj d\<close> Some JObj by simp
        next
          case False
          from loop_next_keys[OF False] nx
          have "node_parser_next json_load (node_parser f) = (Raise AttributeError, Closed)"
            by simp
          then show ?thesis using \<open>sinfo_data = JObj d\<close> Some JObj False by simp
        qed
      next
        case (JArr xs)
        then show ?thesis using assms \<open>sinfo_data = JObj d\<close> Some loop
          by (simp add: node_parser_def)
      qed (use assms \<open>sinfo_data = JObj d\<close> Some in \<open>simp_all add: node_parser_def\<close>)
    qed
  qed (use assms in \<open>simp_all add: node_parser_def\<close>)
qed

theorem envelope_failures_witness:
  "fst (node_parser_next Inr (node_parser (JObj [(''jobs'', JArr [])] :: unit json))) =
     (Raise (KeyError ''nodes'') :: unit outcome) \<and>
   fst (node_parser_next Inr (node_parser (JObj [(''nodes'', JInt 5)] :: unit json))) =
     (Raise TypeError :: unit outcome) \<and>
   node_parser_next Inr (node_parser (JObj [(''nodes'', JObj [(''node1'', JObj [])])] :: unit json)) =
     (Raise AttributeError :: unit outcome, Closed) \<and>
   node_parser_next Inr (node_parser (JObj [(''nodes'', JStr ''node1'')] :: unit json)) =
     (Raise AttributeError :: unit outcome, Closed) \<and>
   node_parser_next Inr (node_parser (JObj [(''nodes'', JStr [])] :: unit json)) =
     (StopIteration :: unit outcome, Closed)"
proof -
  have h: "(Inr x :: error + unit json) = Inr x" for x by simp
  from envelope_failures[where json_load = Inr and f = "JObj [(''jobs'', JArr [])]", OF h]
    envelope_failures[where json_load = Inr and f = "JObj [(''nodes'', JInt 5)]", OF h]
    envelope_failures[where json_load = Inr and
      f = "JObj [(''nodes'', JObj [(''node1'', JObj [])])]", OF h]
    envelope_failures[where json_load = Inr and f = "JObj [(''nodes'', JStr ''node1'')]", OF h]
    envelope_failures[where json_load = Inr and f = "JObj [(''nodes'', JStr [])]", OF h]
  show ?thesis by simp
qed

text \<open>
  C3 as the spec words it fails: a report whose \<^verbatim>\<open>nodes\<close> is an empty object, which is
  not a sequence, is parsed without any failure, as an empty report.
\<close>

theorem envelope_not_validated_counterexample:
  "node_parser_next Inr (node_parser (JObj [(''nodes'', JObj [])] :: unit json)) =
     (StopIteration :: unit outcome, Closed)"
  by (simp add: node_parser_def)

text \<open>
  C6. The report \<^verbatim>\<open>{"nodes": [{"name": "node1", "real_memory": 1800, "state": "down",
  "architecture": "x86_64"}]}\<close> yields one canonical record,
  \<^verbatim>\<open>{"name": "node1", "memory": 1800, "state": "down", "arch": "x86_64"}\<close>, and then
  the generator is exhausted.
\<close>

theorem end_to_end_example:
  assumes "json_load f = Inr (JObj [(''nodes'', JArr [JObj [(''name'', JStr ''node1''),
             (''real_memory'', JInt 1800), (''state'', JStr ''down''),
             (''architecture'', JStr ''x86_64'')]])])"
  shows "take_next json_load 2 (node_parser f) =
           [Yield [(''name'', JStr ''node1''), (''memory'', JInt 1800),
                   (''state'', JStr ''down''), (''arch'', JStr ''x86_64'')],
            StopIteration]"
  using assms
  by (simp add: numeral_2_eq_2 node_parser_def parse_node_def node_field_get_def
      NODE_FIELD_MAP_def)

theorem end_to_end_example_witness:
  "take_next Inr 2 (node_parser (JObj [(''nodes'', JArr [JObj [(''name'', JStr ''node1''),
        (''real_memory'', JInt 1800), (''state'', JStr ''down''),
        (''architecture'', JStr ''x86_64'')]])] :: unit json)) =
     [Yield [(''name'', JStr ''node1''), (''memory'', JInt 1800),
             (''state'', JStr ''down''), (''arch'', JStr ''x86_64'')],
      StopIteration]"
  by (rule end_to_end_example[where json_load = Inr]) simp

section \<open>Where the entries of a canonical record come from\<close>

lemma set_update_subset: "set (AList.update k v al) \<subseteq> insert (k, v) (set al)"
  by (induction al) auto

lemma set_translate:
  "(x, w) \<in> set (translate t k v res) \<Longrightarrow> (x, w) \<in> set res \<or> (target t k = Some x \<and> w = v)"
  using set_update_subset[of k v res] set_update_subset[of _ v res]
  by (cases t) auto

lemma translate_items_entries:
  "translate_items items acc = Inr res \<Longrightarrow> (x, w) \<in> set res \<Longrightarrow>
   (x, w) \<in> set acc \<or> (\<exists>k. (k, w) \<in> set items \<and> target_of k = Some x)"
proof (induction items arbitrary: acc)
  case Nil
  then show ?case by simp
next
  case (Cons p items)
  obtain k v where p: "p = (k, v)" by (cases p)
  from Cons.prems(1) p obtain t where t: "node_field_get k = Some t"
    and rest: "translate_items items (translate t k v acc) = Inr res"
    by (auto split: option.splits)
  from Cons.IH[OF rest Cons.prems(2)]
  consider "(x, w) \<in> set (translate t k v acc)"
    | "\<exists>k. (k, w) \<in> set items \<and> target_of k = Some x"
    by blast
  then show ?case
  proof cases
    case 1
    from set_translate[OF 1] show ?thesis
      using t p by (auto simp: target_of_def)
  next
    case 2
    then show ?thesis using p by auto
  qed
qed

lemma translate_items_ignored:
  "node_field_get k = Some ignore \<Longrightarrow>
   translate_items (filter (\<lambda>(k', v'). k' \<noteq> k) items) acc = translate_items items acc"
proof (induction items arbitrary: acc)
  case Nil
  then show ?case by simp
next
  case (Cons p items)
  obtain k' v' where p: "p = (k', v')" by (cases p)
  show ?case
  proof (cases "k' = k")
    case True
    then show ?thesis using Cons p by simp
  next
    case False
    then show ?thesis using Cons p by (simp split: option.splits)
  qed
qed

lemma target_of_registered:
  assumes "target_of k' = Some k" and "node_field_get k = Some t"
  shows "k' = k \<and> t = copy"
proof -
  obtain t' where t': "node_field_get k' = Some t'" "target t' k' = Some k"
    using assms(1) by (auto simp: target_of_def split: option.splits)
  show ?thesis
  proof (cases t')
    case copy
    then show ?thesis using t' assms(2) by simp
  next
    case ignore
    then show ?thesis using t' by simp
  next
    case (rename n)
    then have "node_field_get k = None"
      using t' rename_target_unregistered[of k' n] by simp
    then show ?thesis using assms(2) by simp
  qed
qed

lemma translate_items_stored:
  assumes "translate_items items [] = Inr res" and "distinct (map fst items)"
    and "(k, v) \<in> set items" and "target_of k = Some x"
  shows "map_of res x = Some v"
proof -
  from assms(3,4) have "find (\<lambda>(k, v). target_of k = Some x) items \<noteq> None"
    by (auto simp: find_None_iff)
  then obtain k1 v1 where f: "find (\<lambda>(k, v). target_of k = Some x) items = Some (k1, v1)"
    by auto
  then have in1: "(k1, v1) \<in> set items" and t1: "target_of k1 = Some x"
    by (auto simp: find_Some_iff intro: nth_mem dest: sym)
  from target_of_inj[OF t1 assms(4)] have "k1 = k" .
  with in1 assms(2,3) have "v1 = v"
    by (metis eq_key_imp_eq_value)
  with translate_items_map_of[OF assms(1,2), of x] f show ?thesis by simp
qed

lemma translate_items_not_key:
  assumes "translate_items items [] = Inr res" and "node_field_get k = Some t" and "t \<noteq> copy"
  shows "k \<notin> dict_keys res"
proof
  assume "k \<in> dict_keys res"
  with translate_items_keys[OF assms(1)] obtain k' where "target_of k' = Some k"
    by (auto simp: dict_keys_def)
  from target_of_registered[OF this assms(2)] assms(3) show False by simp
qed

text \<open>
  C7, as the code has it. A field that the registry maps to \<open>ignore\<close> leaves no trace in
  the canonical record: the translator returns the output record as it received it; the result of
  normalising a raw record is the same with the field as without it; the field's key is
  not a key of the canonical record; and every entry of the canonical record is the value
  of a field mapped to \<open>copy\<close> or \<open>rename\<close>, so none is there on account of the ignored
  field.
\<close>

theorem ignored_field_never_stored:
  assumes "node_field_get k = Some ignore"
  shows "translate ignore k v res = res \<and>
         parse_node (JObj (filter (\<lambda>(k', v'). k' \<noteq> k) src_node)) = parse_node (JObj src_node) \<and>
         (\<forall>res_node. parse_node (JObj src_node) = Inr res_node \<longrightarrow>
            k \<notin> dict_keys res_node \<and>
            (\<forall>(x, w) \<in> set res_node. \<exists>k'. (k', w) \<in> set src_node \<and> k' \<noteq> k \<and>
               (node_field_get k' = Some copy \<and> x = k' \<or> node_field_get k' = Some (rename x))))"
proof -
  have "parse_node (JObj (filter (\<lambda>(k', v'). k' \<noteq> k) src_node)) = parse_node (JObj src_node)"
    using translate_items_ignored[OF assms, of src_node "[]"] by (simp add: parse_node_def)
  moreover have "k \<notin> dict_keys res_node"
    if "parse_node (JObj src_node) = Inr res_node" for res_node
    using that translate_items_not_key[of src_node res_node k ignore] assms
    by (simp add: parse_node_def)
  moreover have "\<exists>k'. (k', w) \<in> set src_node \<and> k' \<noteq> k \<and>
      (node_field_get k' = Some copy \<and> x = k' \<or> node_field_get k' = Some (rename x))"
    if r: "parse_node (JObj src_node) = Inr res_node" and xw: "(x, w) \<in> set res_node"
    for res_node x w
  proof -
    from r have "translate_items src_node [] = Inr res_node" by (simp add: parse_node_def)
    from translate_items_entries[OF this xw] obtain k' where
      k': "(k', w) \<in> set src_node" "target_of k' = Some x"
      by auto
    then obtain t where t: "node_field_get k' = Some t" "target t k' = Some x"
      by (auto simp: target_of_def split: option.splits)
    have "k' \<noteq> k" using t assms by auto
    moreover have "node_field_get k' = Some copy \<and> x = k' \<or> node_field_get k' = Some (rename x)"
      using t by (cases t) auto
    ultimately show ?thesis using k'(1) by blast
  qed
  ultimately show ?thesis by auto
qed

theorem ignored_field_never_stored_witness:
  "node_field_get ''boards'' = Some ignore \<and>
   parse_node (JObj [(''name'', JStr ''node1''), (''boards'', JInt 7 :: unit json)]) =
     Inr [(''name'', JStr ''node1'')] \<and>
   parse_node (JObj (filter (\<lambda>(k', v'). k' \<noteq> ''boards'')
       [(''name'', JStr ''node1''), (''boards'', JInt 7 :: unit json)])) =
     parse_node (JObj [(''name'', JStr ''node1''), (''boards'', JInt 7 :: unit json)]) \<and>
   ''boards'' \<notin> dict_keys [(''name'', JStr ''node1'' :: unit json)]"
proof -
  have h: "node_field_get ''boards'' = Some ignore"
    by (simp add: node_field_get_def NODE_FIELD_MAP_def)
  have n: "node_field_get ''name'' = Some copy"
    by (simp add: node_field_get_def NODE_FIELD_MAP_def)
  have p: "parse_node (JObj [(''name'', JStr ''node1''), (''boards'', JInt 7 :: unit json)]) =
     Inr [(''name'', JStr ''node1'')]"
    using h n by (simp add: parse_node_def)
  note inst = ignored_field_never_stored[OF h,
      of "JInt 7 :: unit json" "[]" "[(''name'', JStr ''node1''), (''boards'', JInt 7)]"]
  from inst have e: "parse_node (JObj (filter (\<lambda>(k', v'). k' \<noteq> ''boards'')
       [(''name'', JStr ''node1''), (''boards'', JInt 7 :: unit json)])) =
     parse_node (JObj [(''name'', JStr ''node1''), (''boards'', JInt 7 :: unit json)])"
    by (rule conjunct1[OF conjunct2])
  from inst p have a: "''boards'' \<notin> dict_keys [(''name'', JStr ''node1'' :: unit json)]"
    by blast
  from h p e a show ?thesis by (intro conjI)
qed

text \<open>
  C7 as the spec words it fails: the value of an ignored field is in the canonical record
  when a copied field holds an equal value. Here \<^verbatim>\<open>hostname\<close> is ignored and its value
  \<^verbatim>\<open>cn-a001\<close> is in the output under \<^verbatim>\<open>name\<close>.
\<close>

theorem ignored_value_coincides_counterexample:
  "node_field_get ''hostname'' = Some ignore \<and>
   parse_node (JObj [(''name'', JStr ''cn-a001''), (''hostname'', JStr ''cn-a001'' :: unit json)]) =
     Inr [(''name'', JStr ''cn-a001'')] \<and>
   map_of [(''name'', JStr ''cn-a001'' :: unit json)] ''name'' = Some (JStr ''cn-a001'')"
  by (simp add: parse_node_def node_field_get_def NODE_FIELD_MAP_def)

text \<open>
  C8. For a field that the registry maps to \<open>rename new_key\<close>, the translator applied to
  a value \<open>v\<close> and an empty output record gives exactly \<open>{new_key: v}\<close>, the value as it
  was; and in the canonical record of a raw record that holds \<open>v\<close> in that field, \<open>v\<close> is
  under \<open>new_key\<close> and the original key is absent.
\<close>

theorem rename_stores_under_new_key:
  assumes "node_field_get k = Some (rename new_key)"
    and "dict_keys_distinct src_node" and "(k, v) \<in> set src_node"
    and "parse_node (JObj src_node) = Inr res_node"
  shows "translate (rename new_key) k v [] = [(new_key, v)] \<and>
         map_of res_node new_key = Some v \<and> k \<notin> dict_keys res_node"
proof -
  from assms(4) have r: "translate_items src_node [] = Inr res_node"
    by (simp add: parse_node_def)
  have t: "target_of k = Some new_key" using assms(1) by (simp add: target_of_def)
  have d: "distinct (map fst src_node)" using assms(2) by (simp add: dict_keys_distinct_def)
  have "map_of res_node new_key = Some v"
    by (rule translate_items_stored[OF r d assms(3) t])
  moreover have "k \<notin> dict_keys res_node"
    by (rule translate_items_not_key[OF r assms(1)]) simp
  ultimately show ?thesis by simp
qed

theorem rename_stores_under_new_key_witness:
  "node_field_get ''real_memory'' = Some (rename ''memory'') \<and>
   dict_keys_distinct [(''name'', JStr ''node1''), (''real_memory'', JInt 1800 :: unit json)] \<and>
   parse_node (JObj [(''name'', JStr ''node1''), (''real_memory'', JInt 1800 :: unit json)]) =
     Inr [(''name'', JStr ''node1''), (''memory'', JInt 1800)] \<and>
   translate (rename ''memory'') ''real_memory'' (JInt 1800 :: unit json) [] =
     [(''memory'', JInt 1800)] \<and>
   map_of [(''name'', JStr ''node1''), (''memory'', JInt 1800 :: unit json)] ''memory'' =
     Some (JInt 1800) \<and>
   ''real_memory'' \<notin> dict_keys [(''name'', JStr ''node1''), (''memory'', JInt 1800 :: unit json)]"
proof -
  let ?src = "[(''name'', JStr ''node1''), (''real_memory'', JInt 1800 :: unit json)]"
  have h1: "node_field_get ''real_memory'' = Some (rename ''memory'')"
    by (simp add: node_field_get_def NODE_FIELD_MAP_def)
  have n: "node_field_get ''name'' = Some copy"
    by (simp add: node_field_get_def NODE_FIELD_MAP_def)
  have h2: "dict_keys_distinct ?src" by (simp add: dict_keys_distinct_def)
  have h3: "(''real_memory'', JInt 1800) \<in> set ?src" by simp
  have h4: "parse_node (JObj ?src) = Inr [(''name'', JStr ''node1''), (''memory'', JInt 1800)]"
    using h1 n by (simp add: parse_node_def)
  from rename_stores_under_new_key[OF h1 h2 h3 h4] h1 h2 h4
  show ?thesis by simp
qed

text \<open>
  C9, as the code has it. The node parser decodes no composite string: the registry maps
  \<^verbatim>\<open>tres\<close> and \<^verbatim>\<open>tres_used\<close> to \<open>copy\<close>, so the canonical record holds, under the same
  key, the value that the raw record holds, whatever it is; a \<^verbatim>\<open>key=value\<close> aggregate
  stays the raw string.
\<close>

theorem tres_copied_unchanged:
  assumes "k = ''tres'' \<or> k = ''tres_used''"
    and "dict_keys_distinct src_node" and "(k, v) \<in> set src_node"
    and "parse_node (JObj src_node) = Inr res_node"
  shows "node_field_get k = Some copy \<and> translate copy k v [] = [(k, v)] \<and>
         map_of res_node k = Some v"
proof -
  have c: "node_field_get k = Some copy"
    using assms(1) by (auto simp: node_field_get_def NODE_FIELD_MAP_def)
  from assms(4) have r: "translate_items src_node [] = Inr res_node"
    by (simp add: parse_node_def)
  have t: "target_of k = Some k" using c by (simp add: target_of_def)
  have d: "distinct (map fst src_node)" using assms(2) by (simp add: dict_keys_distinct_def)
  have "map_of res_node k = Some v"
    by (rule translate_items_stored[OF r d assms(3) t])
  with c show ?thesis by simp
qed

theorem tres_copied_unchanged_witness:
  "dict_keys_distinct [(''name'', JStr ''node1''),
       (''tres'', JStr ''cpu=40,mem=386618M,billing=96'' :: unit json)] \<and>
   parse_node (JObj [(''name'', JStr ''node1''),
       (''tres'', JStr ''cpu=40,mem=386618M,billing=96'' :: unit json)]) =
     Inr [(''name'', JStr ''node1''), (''tres'', JStr ''cpu=40,mem=386618M,billing=96'')] \<and>
   node_field_get ''tres'' = Some copy \<and>
   map_of [(''name'', JStr ''node1''),
       (''tres'', JStr ''cpu=40,mem=386618M,billing=96'' :: unit json)] ''tres'' =
     Some (JStr ''cpu=40,mem=386618M,billing=96'')"
proof -
  let ?src = "[(''name'', JStr ''node1''),
       (''tres'', JStr ''cpu=40,mem=386618M,billing=96'' :: unit json)]"
  have h1: "''tres'' = ''tres'' \<or> ''tres'' = ''tres_used''" by simp
  have h2: "dict_keys_distinct ?src" by (simp add: dict_keys_distinct_def)
  have h3: "(''tres'', JStr ''cpu=40,mem=386618M,billing=96'') \<in> set ?src" by simp
  have n: "node_field_get ''name'' = Some copy"
    by (simp add: node_field_get_def NODE_FIELD_MAP_def)
  have c: "node_field_get ''tres'' = Some copy"
    by (simp add: node_field_get_def NODE_FIELD_MAP_def)
  have h4: "parse_node (JObj ?src) = Inr ?src"
    using n c by (simp add: parse_node_def)
  from tres_copied_unchanged[OF h1 h2 h3 h4] h2 h4
  show ?thesis by simp
qed

text \<open>
  C9 as the spec words it fails: the value of \<^verbatim>\<open>tres\<close> in the canonical record is the raw
  string, not a mapping with the keys \<^verbatim>\<open>cpu\<close>, \<^verbatim>\<open>mem\<close> and \<^verbatim>\<open>billing\<close>.
\<close>

theorem tres_not_decoded_counterexample:
  "parse_node (JObj [(''tres'', JStr ''cpu=40,mem=386618M,billing=96'' :: unit json)]) =
     Inr [(''tres'', JStr ''cpu=40,mem=386618M,billing=96'')]"
  by (simp add: parse_node_def node_field_get_def NODE_FIELD_MAP_def)



end
